theory Spec2Isabelle
  imports Complex_Main "HOL-Library.Sublist" "HOL-Library.Log_Nat"
begin

section \<open>Cells, text and data frames\<close>

text \<open>
  The program is \<^verbatim>\<open>src/spreadsheet_compiler.py\<close>. Its data are pandas data frames.
  A cell is either missing (\<^verbatim>\<open>NaN\<close>, what \<^verbatim>\<open>pd.notna\<close> rejects) or a piece of text.
  Text is ASCII: \<^verbatim>\<open>str.upper\<close> is modelled on the letters \<^verbatim>\<open>a\<close> to \<^verbatim>\<open>z\<close> only.
  Numeric and date cells are outside the model, because their rendering by \<^verbatim>\<open>str\<close>
  depends on the column's floating-point dtype.
\<close>

datatype cell = Null | Text string

datatype error =
    UnreadableFile      \<comment> \<open>\<^verbatim>\<open>pd.read_excel\<close> raised\<close>
  | AttributeError      \<comment> \<open>\<^verbatim>\<open>.str\<close> asked of a frame instead of a series\<close>
  | IndexError          \<comment> \<open>position 0 of an empty index\<close>
  | NoObjectsToConcatenate  \<comment> \<open>\<^verbatim>\<open>pd.concat([])\<close>\<close>
  | DuplicateLabels     \<comment> \<open>\<^verbatim>\<open>pd.concat\<close> over a frame whose column labels repeat\<close>

record dataframe =
  columns :: "cell list"
  rows :: "cell list list"

text \<open>
  A frame's row index is the default positional one (\<^verbatim>\<open>0, 1, 2, ...\<close>), as
  \<^verbatim>\<open>pd.read_excel\<close> builds it, so the label that \<^verbatim>\<open>iterrows\<close> yields is the position
  that \<^verbatim>\<open>iloc\<close> takes. pandas keeps every row as long as the column index.
\<close>

definition df_empty :: "dataframe \<Rightarrow> bool" where
  \<comment> \<open>\<^verbatim>\<open>df.empty\<close>: some axis has length 0\<close>
  "df_empty df = (rows df = [] \<or> columns df = [])"

definition notna :: "cell \<Rightarrow> bool" where
  "notna c = (c \<noteq> Null)"

definition py_str :: "cell \<Rightarrow> string" where
  \<comment> \<open>\<^verbatim>\<open>str(cell)\<close> and \<^verbatim>\<open>astype(str)\<close>; a missing cell prints as \<^verbatim>\<open>nan\<close>\<close>
  "py_str c = (case c of Null \<Rightarrow> ''nan'' | Text s \<Rightarrow> s)"

definition upper_char :: "char \<Rightarrow> char" where
  "upper_char c =
     (let n = (of_char c :: nat) in if 97 \<le> n \<and> n \<le> 122 then char_of (n - 32) else c)"

definition py_upper :: "string \<Rightarrow> string" where
  "py_upper s = map upper_char s"

fun py_in :: "string \<Rightarrow> string \<Rightarrow> bool" where
  \<comment> \<open>\<^verbatim>\<open>needle in hay\<close> on strings\<close>
  "py_in needle [] = (needle = [])"
| "py_in needle (c # cs) = (prefix needle (c # cs) \<or> py_in needle cs)"

fun py_join :: "string \<Rightarrow> string list \<Rightarrow> string" where
  "py_join sep [] = []"
| "py_join sep [s] = s"
| "py_join sep (s # t # ts) = s @ sep @ py_join sep (t # ts)"

definition cell_at :: "nat \<Rightarrow> cell list \<Rightarrow> cell" where
  \<comment> \<open>the cell of a row at a column position; pandas pads a short row with \<^verbatim>\<open>NaN\<close>\<close>
  "cell_at i r = (if i < length r then r ! i else Null)"

section \<open>Header detection (lines 25 to 40)\<close>

definition header_indicators :: "string list" where
  "header_indicators =
     [''CUSTOMER_INVOICE_NUMBER'', ''ID'', ''INVOICE'', ''CUSTOMER'', ''BILLING'',
      ''CURRENCY'', ''DATE'', ''AMOUNT'', ''FEE'', ''CHARGE'']"

definition row_str :: "cell list \<Rightarrow> string" where
  \<comment> \<open>\<^verbatim>\<open>' '.join(str(cell).upper() for cell in row.values if pd.notna(cell))\<close>\<close>
  "row_str row = py_join '' '' (map (\<lambda>c. py_upper (py_str c)) (filter notna row))"

definition indicators_found :: "string \<Rightarrow> nat" where
  \<comment> \<open>\<^verbatim>\<open>sum(1 for indicator in header_indicators if indicator in row_str)\<close>\<close>
  "indicators_found s = length (filter (\<lambda>indicator. py_in indicator s) header_indicators)"

fun find_header :: "nat \<Rightarrow> cell list list \<Rightarrow> nat option" where
  \<comment> \<open>the \<^verbatim>\<open>for idx, row in df.iterrows()\<close> loop, \<^verbatim>\<open>idx\<close> counting from the first argument\<close>
  "find_header idx [] = None"
| "find_header idx (row # rest) =
     (if list_ex (\<lambda>indicator. py_in indicator (row_str row)) header_indicators
      then (if 2 \<le> indicators_found (row_str row) then Some idx
            else find_header (Suc idx) rest)
      else find_header (Suc idx) rest)"

definition header_row_idx :: "dataframe \<Rightarrow> nat option" where
  "header_row_idx df = find_header 0 (rows df)"

text \<open>
  The specification's wording of the test: the number of indicator keywords that occur
  as a substring of the row's joined text.
\<close>

definition indicator_keywords_in :: "cell list \<Rightarrow> string set" where
  "indicator_keywords_in row = {k \<in> set header_indicators. sublist k (row_str row)}"

definition is_header_candidate :: "cell list \<Rightarrow> bool" where
  "is_header_candidate row = (2 \<le> card (indicator_keywords_in row))"

section \<open>Normalisation: \<^verbatim>\<open>clean_dataframe\<close> (lines 8 to 96)\<close>

subsection \<open>Header-found path (lines 42 to 72)\<close>

definition metadata_keywords_header :: "string list" where
  "metadata_keywords_header =
     [''Monthly Billing Summary'', ''Report'', ''TOTAL'', ''Summary'',
      ''Generated'', ''Period'', ''Currency'', ''Page'']"

definition dropna_all :: "cell list list \<Rightarrow> cell list list" where
  \<comment> \<open>\<^verbatim>\<open>dropna(how='all')\<close>: a row stays when some cell of it is not missing\<close>
  "dropna_all rws = filter (\<lambda>r. list_ex notna r) rws"

definition str_contains :: "string list \<Rightarrow> string \<Rightarrow> bool" where
  \<comment> \<open>\<^verbatim>\<open>.str.contains('|'.join(keywords), regex=True)\<close>: the keywords hold letters and
      blanks only, so the pattern matches exactly where one of them occurs, in its own case\<close>
  "str_contains keywords s = list_ex (\<lambda>k. py_in k s) keywords"

definition first_col_mask :: "cell list \<Rightarrow> bool" where
  \<comment> \<open>\<^verbatim>\<open>data_df[first_col].astype(str).str.upper().str.contains(...)\<close> at one row\<close>
  "first_col_mask r = str_contains metadata_keywords_header (py_upper (py_str (cell_at 0 r)))"

definition header_path :: "dataframe \<Rightarrow> nat \<Rightarrow> error + dataframe" where
  "header_path df header_idx =
     (let new_header = rows df ! header_idx;
          data_df = \<lparr>columns = new_header,
                     rows = dropna_all (drop (header_idx + 1) (rows df))\<rparr>
      in if \<not> df_empty data_df then
           (case columns data_df of
              [] \<Rightarrow> Inl IndexError
            | first_col # _ \<Rightarrow>
                if first_col \<in> set (columns data_df) then
                  (if 1 < count_list (columns data_df) first_col
                   then Inl AttributeError
                   else Inr (data_df\<lparr>rows := filter (\<lambda>r. \<not> first_col_mask r) (rows data_df)\<rparr>))
                else Inr data_df)
         else Inr data_df)"

subsection \<open>No-header path (lines 73 to 96)\<close>

definition metadata_keywords_general :: "string list" where
  "metadata_keywords_general =
     [''Monthly Billing Summary'', ''Report'', ''Generated on'', ''Period:'', ''Currency:'']"

definition drop_keyword_rows :: "string \<Rightarrow> cell list list \<Rightarrow> cell list list" where
  \<comment> \<open>one round of the \<^verbatim>\<open>for keyword in metadata_keywords\<close> loop\<close>
  "drop_keyword_rows keyword rws =
     (let keyword_upper = py_upper keyword
      in filter (\<lambda>r. \<not> list_ex (\<lambda>c. py_in keyword_upper (py_upper (py_str c))) r) rws)"

definition remove_metadata_rows :: "cell list list \<Rightarrow> cell list list" where
  "remove_metadata_rows rws =
     foldl (\<lambda>acc keyword. drop_keyword_rows keyword acc) rws metadata_keywords_general"

text \<open>
  The threshold \<^verbatim>\<open>len(clean_df.columns) * 0.2\<close> is a binary64 product. A binary64 value
  is modelled as the rational it denotes. \<open>to_double\<close> rounds a rational to the nearest
  value with a 53-bit significand, ties to the even significand; overflow and subnormal
  values do not arise, since the operands here are a column count and \<^verbatim>\<open>0.2\<close>.
\<close>

definition round_half_even :: "rat \<Rightarrow> int" where
  "round_half_even q =
     (let f = \<lfloor>q\<rfloor>; r = q - of_int f
      in if r < 1 / 2 then f else if 1 / 2 < r then f + 1
         else if even f then f else f + 1)"

definition binade :: "rat \<Rightarrow> int" where
  \<comment> \<open>for \<open>0 < x\<close>, the exponent \<open>e\<close> with \<open>2 powi e \<le> x < 2 powi (e + 1)\<close>\<close>
  "binade x =
     (if 1 \<le> x then int (floorlog 2 (nat \<lfloor>x\<rfloor>)) - 1
      else - int (floorlog 2 (nat (\<lceil>1 / x\<rceil> - 1))))"

definition to_double :: "rat \<Rightarrow> rat" where
  "to_double x =
     (if x = 0 then 0
      else let ulp = 2 powi (binade x - 52)
           in of_int (round_half_even (x / ulp)) * ulp)"

definition double_0_2 :: rat where
  \<comment> \<open>the binary64 value of the literal \<^verbatim>\<open>0.2\<close>\<close>
  "double_0_2 = 3602879701896397 / 2 ^ 54"

definition float_mul :: "rat \<Rightarrow> rat \<Rightarrow> rat" where
  "float_mul a b = to_double (a * b)"

definition dropna_threshold :: "nat \<Rightarrow> rat" where
  \<comment> \<open>\<^verbatim>\<open>len(clean_df.columns) * 0.2\<close>: the count converts to binary64, then multiplies\<close>
  "dropna_threshold ncols = float_mul (to_double (of_nat ncols)) double_0_2"

definition non_null_count :: "cell list \<Rightarrow> nat" where
  "non_null_count r = length (filter notna r)"

definition dropna_thresh :: "rat \<Rightarrow> cell list list \<Rightarrow> cell list list" where
  \<comment> \<open>\<^verbatim>\<open>dropna(thresh=t)\<close> keeps the rows with \<^verbatim>\<open>count >= t\<close>\<close>
  "dropna_thresh t rws = filter (\<lambda>r. t \<le> of_nat (non_null_count r)) rws"

definition general_path :: "dataframe \<Rightarrow> dataframe" where
  "general_path df =
     (let clean_rows = remove_metadata_rows (rows df)
      in df\<lparr>rows := dropna_thresh (dropna_threshold (length (columns df))) clean_rows\<rparr>)"

subsection \<open>The function\<close>

definition clean_dataframe :: "dataframe \<Rightarrow> error + dataframe" where
  "clean_dataframe df =
     (if df_empty df then Inr df
      else case header_row_idx df of
             Some header_idx \<Rightarrow> header_path df header_idx
           | None \<Rightarrow> Inr (general_path df))"

section \<open>The batch run: \<^verbatim>\<open>compile_xlsx_to_csv\<close> (lines 99 to 208)\<close>

text \<open>
  A file of the ready folder is its name, what \<^verbatim>\<open>pd.read_excel\<close> does on it (raise, or
  return a frame) and whether \<^verbatim>\<open>shutil.move\<close> succeeds on it. The output path of
  lines 180 to 190 (folder, optional name, clock) is a parameter. Creating the folders and
  writing the file are taken to succeed.
\<close>

record xlsx_file =
  fname :: string
  read_excel :: "error + dataframe"
  movable :: bool

record run_result =
  returned :: "string option"   \<comment> \<open>the return value: the output path, or \<^verbatim>\<open>None\<close>\<close>
  csv :: "dataframe option"     \<comment> \<open>the table written to the output file, if one was written\<close>
  done_folder :: "string list"  \<comment> \<open>names of the files moved to the done folder\<close>
  ready_folder :: "string list" \<comment> \<open>names of the files left in the ready folder\<close>

definition source_file :: cell where
  "source_file = Text ''source_file''"

definition set_column :: "cell \<Rightarrow> cell \<Rightarrow> dataframe \<Rightarrow> dataframe" where
  \<comment> \<open>\<^verbatim>\<open>df[label] = value\<close>: an existing column is overwritten in place, a new one is
      appended after the others\<close>
  "set_column label v df =
     (if label \<in> set (columns df)
      then df\<lparr>rows := map (\<lambda>r. map (\<lambda>(c, x). if c = label then v else x) (zip (columns df) r))
                            (rows df)\<rparr>
      else \<lparr>columns = columns df @ [label], rows = map (\<lambda>r. r @ [v]) (rows df)\<rparr>)"

fun read_loop ::
  "xlsx_file list \<Rightarrow> dataframe list \<times> xlsx_file list \<Rightarrow> dataframe list \<times> xlsx_file list" where
  \<comment> \<open>the \<^verbatim>\<open>for xlsx_file in xlsx_files\<close> loop over \<^verbatim>\<open>(all_dataframes, processed_files)\<close>;
      the call of \<^verbatim>\<open>clean_dataframe\<close> is commented out in the source (line 151)\<close>
  "read_loop [] acc = acc"
| "read_loop (xlsx_file # files) (all_dataframes, processed_files) =
     (case read_excel xlsx_file of
        Inl e \<Rightarrow> read_loop files (all_dataframes, processed_files)
      | Inr df \<Rightarrow>
          (let df_cleaned = df
           in if \<not> df_empty df_cleaned
              then read_loop files
                     (all_dataframes @ [set_column source_file (Text (fname xlsx_file)) df_cleaned],
                      processed_files @ [xlsx_file])
              else read_loop files (all_dataframes, processed_files)))"

definition index_union :: "cell list \<Rightarrow> cell list \<Rightarrow> cell list" where
  \<comment> \<open>\<^verbatim>\<open>Index.union(other, sort=False)\<close> on labels without repeats\<close>
  "index_union a b = a @ filter (\<lambda>c. c \<notin> set a) b"

definition reindex_row :: "cell list \<Rightarrow> cell list \<Rightarrow> cell list \<Rightarrow> cell list" where
  \<comment> \<open>a row of a frame with labels \<open>cols\<close>, laid out on \<open>new_cols\<close>; an absent label gives \<^verbatim>\<open>NaN\<close>\<close>
  "reindex_row new_cols cols r =
     map (\<lambda>c. case map_of (zip cols r) c of None \<Rightarrow> Null | Some v \<Rightarrow> v) new_cols"

definition pd_concat :: "dataframe list \<Rightarrow> error + dataframe" where
  \<comment> \<open>\<^verbatim>\<open>pd.concat(frames, ignore_index=True)\<close>; what pandas does when a frame's labels
      repeat is not modelled: \<^verbatim>\<open>read_excel\<close> renames repeated labels\<close>
  "pd_concat dfs =
     (if dfs = [] then Inl NoObjectsToConcatenate
      else if list_ex (\<lambda>df. \<not> distinct (columns df)) dfs then Inl DuplicateLabels
      else let cols = foldl index_union [] (map columns dfs)
           in Inr \<lparr>columns = cols,
                    rows = concat (map (\<lambda>df. map (reindex_row cols (columns df)) (rows df)) dfs)\<rparr>)"

definition compile_xlsx_to_csv :: "string \<Rightarrow> xlsx_file list \<Rightarrow> error + run_result" where
  "compile_xlsx_to_csv output_file_path xlsx_files =
     (let nothing = \<lparr>returned = None, csv = None, done_folder = [],
                      ready_folder = map fname xlsx_files\<rparr>
      in if xlsx_files = [] then Inr nothing
         else case read_loop xlsx_files ([], []) of
           (all_dataframes, processed_files) \<Rightarrow>
             if all_dataframes = [] then Inr nothing
             else case pd_concat all_dataframes of
                    Inl e \<Rightarrow> Inl e
                  | Inr combined_df \<Rightarrow>
                      (let moved = filter movable processed_files
                       in Inr \<lparr>returned = Some output_file_path, csv = Some combined_df,
                               done_folder = map fname moved,
                               ready_folder =
                                 map fname (filter (\<lambda>f. f \<notin> set moved) xlsx_files)\<rparr>))"

text \<open>The files whose frame reaches the merge, and the frame each of them contributes.\<close>

definition survives :: "xlsx_file \<Rightarrow> bool" where
  "survives f = (case read_excel f of Inl e \<Rightarrow> False | Inr df \<Rightarrow> \<not> df_empty df)"

definition tagged :: "xlsx_file \<Rightarrow> dataframe" where
  "tagged f =
     (case read_excel f of
        Inl e \<Rightarrow> \<lparr>columns = [], rows = []\<rparr>
      | Inr df \<Rightarrow> set_column source_file (Text (fname f)) df)"

definition sheet :: "xlsx_file \<Rightarrow> dataframe" where
  \<comment> \<open>the frame that \<^verbatim>\<open>pd.read_excel\<close> returns for a file; no frame when it raises\<close>
  "sheet f = (case read_excel f of Inl e \<Rightarrow> \<lparr>columns = [], rows = []\<rparr> | Inr df \<Rightarrow> df)"

definition first_seen :: "cell list \<Rightarrow> cell list" where
  \<comment> \<open>the labels of a list in the order of their first occurrence\<close>
  "first_seen cs = rev (remdups (rev cs))"

section \<open>Concrete inputs\<close>

definition header_example :: dataframe where
  \<comment> \<open>a title row, a row with one indicator, a row with two, a row with four\<close>
  "header_example =
     \<lparr>columns = [Text ''Unnamed: 0'', Text ''Unnamed: 1'', Text ''Unnamed: 2'', Text ''Unnamed: 3''],
      rows = [[Text ''Monthly Billing Summary'', Null, Null, Null],
              [Text ''Invoice'', Null, Null, Null],
              [Text ''Invoice'', Text ''Customer'', Null, Null],
              [Text ''Invoice'', Text ''Customer'', Text ''Amount'', Text ''Fee'']]\<rparr>"

definition zero_row_example :: dataframe where
  \<comment> \<open>a sheet that has column names and no row\<close>
  "zero_row_example = \<lparr>columns = [Text ''INVOICE'', Text ''AMOUNT''], rows = []\<rparr>"

definition blank_header_example :: dataframe where
  \<comment> \<open>the header row has an empty cell at position 1\<close>
  "blank_header_example =
     \<lparr>columns = [Text ''Unnamed: 0'', Text ''Unnamed: 1'', Text ''Unnamed: 2''],
      rows = [[Text ''Invoice'', Null, Text ''Customer''],
              [Text ''1001'', Text ''x'', Text ''Acme'']]\<rparr>"

definition report_example :: dataframe where
  \<comment> \<open>below the header: two title rows, an empty row, a totals row, a data row\<close>
  "report_example =
     \<lparr>columns = [Text ''Unnamed: 0'', Text ''Unnamed: 1''],
      rows = [[Text ''Invoice'', Text ''Customer''],
              [Text ''Report'', Text ''x''],
              [Text ''Monthly Billing Summary'', Null],
              [Null, Null],
              [Text ''Grand total'', Text ''5''],
              [Text ''1001'', Text ''Acme'']]\<rparr>"

definition sparse_example :: dataframe where
  \<comment> \<open>ten columns, no header row; rows with 2, 1, 0, 3 and 2 cells present\<close>
  "sparse_example =
     \<lparr>columns = [Text ''c0'', Text ''c1'', Text ''c2'', Text ''c3'', Text ''c4'',
                 Text ''c5'', Text ''c6'', Text ''c7'', Text ''c8'', Text ''c9''],
      rows = [[Text ''a'', Text ''b'', Null, Null, Null, Null, Null, Null, Null, Null],
              [Text ''a'', Null, Null, Null, Null, Null, Null, Null, Null, Null],
              [Null, Null, Null, Null, Null, Null, Null, Null, Null, Null],
              [Text ''x'', Text ''report for May'', Text ''y'', Null, Null, Null, Null, Null,
               Null, Null],
              [Null, Null, Null, Null, Null, Null, Null, Null, Text ''p'', Text ''q'']]\<rparr>"

text \<open>
  The two sheets of the end-to-end scenario, as \<^verbatim>\<open>pd.read_excel\<close> hands them over: the
  first row of a sheet becomes the column names, and an empty cell of that row is named
  \<^verbatim>\<open>Unnamed: i\<close>.
\<close>

definition sheet1 :: dataframe where
  "sheet1 =
     \<lparr>columns = [Text ''Monthly Billing Summary'', Text ''Unnamed: 1'', Text ''Unnamed: 2''],
      rows = [[Text ''INVOICE'', Text ''CUSTOMER'', Text ''AMOUNT''],
              [Text ''1001'', Text ''Acme'', Text ''50.00'']]\<rparr>"

definition sheet2 :: dataframe where
  "sheet2 =
     \<lparr>columns = [Text ''INVOICE'', Text ''CUSTOMER'', Text ''FEE''],
      rows = [[Text ''1002'', Text ''Globex'', Text ''10.00'']]\<rparr>"

definition billing_files :: "xlsx_file list" where
  "billing_files =
     [\<lparr>fname = ''Sheet1.xlsx'', read_excel = Inr sheet1, movable = True\<rparr>,
      \<lparr>fname = ''Sheet2.xlsx'', read_excel = Inr sheet2, movable = True\<rparr>]"

definition billing_merged :: dataframe where
  "billing_merged =
     \<lparr>columns = [Text ''Monthly Billing Summary'', Text ''Unnamed: 1'', Text ''Unnamed: 2'',
                 Text ''source_file'', Text ''INVOICE'', Text ''CUSTOMER'', Text ''FEE''],
      rows = [[Text ''INVOICE'', Text ''CUSTOMER'', Text ''AMOUNT'', Text ''Sheet1.xlsx'',
               Null, Null, Null],
              [Text ''1001'', Text ''Acme'', Text ''50.00'', Text ''Sheet1.xlsx'',
               Null, Null, Null],
              [Null, Null, Null, Text ''Sheet2.xlsx'',
               Text ''1002'', Text ''Globex'', Text ''10.00'']]\<rparr>"

definition billing_claimed :: dataframe where
  "billing_claimed =
     \<lparr>columns = [Text ''INVOICE'', Text ''CUSTOMER'', Text ''AMOUNT'', Text ''FEE'',
                 Text ''source_file''],
      rows = [[Text ''1001'', Text ''Acme'', Text ''50.00'', Null, Text ''Sheet1.xlsx''],
              [Text ''1002'', Text ''Globex'', Null, Text ''10.00'', Text ''Sheet2.xlsx'']]\<rparr>"

definition ab_bc_files :: "xlsx_file list" where
  "ab_bc_files =
     [\<lparr>fname = ''ab.xlsx'',
       read_excel = Inr \<lparr>columns = [Text ''A'', Text ''B''], rows = [[Text ''a1'', Text ''b1'']]\<rparr>,
       movable = True\<rparr>,
      \<lparr>fname = ''bc.xlsx'',
       read_excel = Inr \<lparr>columns = [Text ''B'', Text ''C''], rows = [[Text ''b2'', Text ''c2'']]\<rparr>,
       movable = True\<rparr>]"

definition corrupt_file :: xlsx_file where
  "corrupt_file = \<lparr>fname = ''corrupt.xlsx'', read_excel = Inl UnreadableFile, movable = True\<rparr>"

definition blank_file :: xlsx_file where
  "blank_file =
     \<lparr>fname = ''blank.xlsx'', read_excel = Inr \<lparr>columns = [Text ''INVOICE''], rows = []\<rparr>,
      movable = True\<rparr>"

definition sheet2_file :: xlsx_file where
  "sheet2_file = \<lparr>fname = ''Sheet2.xlsx'', read_excel = Inr sheet2, movable = True\<rparr>"

definition sheet2_merged :: dataframe where
  "sheet2_merged =
     \<lparr>columns = [Text ''INVOICE'', Text ''CUSTOMER'', Text ''FEE'', Text ''source_file''],
      rows = [[Text ''1002'', Text ''Globex'', Text ''10.00'', Text ''Sheet2.xlsx'']]\<rparr>"


section \<open>Facts about text\<close>

lemma py_in_sublist: "py_in needle hay = sublist needle hay"
  by (induction hay) (simp_all add: sublist_Cons_right)

lemma distinct_header_indicators: "distinct header_indicators"
  by (simp add: header_indicators_def)

lemma indicators_found_card:
  "indicators_found (row_str row) = card (indicator_keywords_in row)"
proof -
  have "indicator_keywords_in row =
      set (filter (\<lambda>k. py_in k (row_str row)) header_indicators)"
    by (auto simp: indicator_keywords_in_def py_in_sublist)
  moreover have "distinct (filter (\<lambda>k. py_in k (row_str row)) header_indicators)"
    using distinct_header_indicators by (rule distinct_filter)
  ultimately have "card (indicator_keywords_in row) =
      length (filter (\<lambda>k. py_in k (row_str row)) header_indicators)"
    by (simp only: distinct_card)
  then show ?thesis
    by (simp only: indicators_found_def)
qed

lemma find_header_step:
  "find_header idx (row # rest) =
     (if is_header_candidate row then Some idx else find_header (Suc idx) rest)"
proof -
  have "indicators_found (row_str row) = 0"
    if "\<not> list_ex (\<lambda>indicator. py_in indicator (row_str row)) header_indicators"
    using that by (simp add: indicators_found_def list_ex_iff filter_empty_conv)
  then show ?thesis
    by (auto simp: is_header_candidate_def indicators_found_card [symmetric])
qed

lemma find_header_Some:
  "find_header idx rws = Some k \<longleftrightarrow>
     (idx \<le> k \<and> k - idx < length rws \<and> is_header_candidate (rws ! (k - idx)) \<and>
      (\<forall>j < k - idx. \<not> is_header_candidate (rws ! j)))"
proof (induction rws arbitrary: idx)
  case Nil
  then show ?case by simp
next
  case (Cons row rest)
  show ?case
  proof (cases "is_header_candidate row")
    case True
    have "k - idx = 0"
      if "\<forall>j < k - idx. \<not> is_header_candidate ((row # rest) ! j)"
      using that True by (cases "k - idx") auto
    then show ?thesis
      using True by (auto simp: find_header_step simp del: find_header.simps)
  next
    case False
    have "find_header idx (row # rest) = find_header (Suc idx) rest"
      using False by (simp only: find_header_step if_False)
    also have "\<dots> = Some k \<longleftrightarrow>
        (Suc idx \<le> k \<and> k - Suc idx < length rest \<and>
         is_header_candidate (rest ! (k - Suc idx)) \<and>
         (\<forall>j < k - Suc idx. \<not> is_header_candidate (rest ! j)))"
      by (rule Cons.IH)
    also have "\<dots> \<longleftrightarrow>
        (idx \<le> k \<and> k - idx < length (row # rest) \<and>
         is_header_candidate ((row # rest) ! (k - idx)) \<and>
         (\<forall>j < k - idx. \<not> is_header_candidate ((row # rest) ! j)))"
    proof (cases "idx < k")
      case True
      then obtain m where m: "k - idx = Suc m" "k - Suc idx = m"
        by (metis Suc_diff_Suc)
      show ?thesis
        using True False unfolding m
        by (auto simp: less_Suc_eq_0_disj nth_Cons')
    next
      case False': False
      then show ?thesis using False by auto
    qed
    finally show ?thesis .
  qed
qed

lemma find_header_None:
  "find_header idx rws = None \<longleftrightarrow> (\<forall>row \<in> set rws. \<not> is_header_candidate row)"
  by (induction rws arbitrary: idx) (simp_all add: find_header_step del: find_header.simps(2))

section \<open>Header selection\<close>

text \<open>
  C6. The header row that normalisation selects is the topmost row whose uppercased,
  space-joined non-null cells contain at least two of the header-indicator keywords as
  substrings. No row is selected exactly when no row has two of them, a row with exactly
  one indicator is never selected, and the rows below the first qualifying row play no
  part, however many indicators they hold.
\<close>

theorem header_row_is_topmost_candidate:
  "(header_row_idx df = Some k \<longleftrightarrow>
      k < length (rows df) \<and> is_header_candidate (rows df ! k) \<and>
      (\<forall>j<k. \<not> is_header_candidate (rows df ! j))) \<and>
   (header_row_idx df = None \<longleftrightarrow> (\<forall>row \<in> set (rows df). \<not> is_header_candidate row)) \<and>
   (card (indicator_keywords_in (rows df ! k)) = 1 \<longrightarrow> header_row_idx df \<noteq> Some k)"
proof -
  have some: "header_row_idx df = Some k \<longleftrightarrow>
      k < length (rows df) \<and> is_header_candidate (rows df ! k) \<and>
      (\<forall>j<k. \<not> is_header_candidate (rows df ! j))"
    using find_header_Some [of 0 "rows df" k] by (simp add: header_row_idx_def)
  have none: "header_row_idx df = None \<longleftrightarrow>
      (\<forall>row \<in> set (rows df). \<not> is_header_candidate row)"
    by (simp add: header_row_idx_def find_header_None)
  have one: "header_row_idx df \<noteq> Some k"
    if "card (indicator_keywords_in (rows df ! k)) = 1"
    using that some by (simp add: is_header_candidate_def)
  from some none one show ?thesis by blast
qed

theorem header_row_is_topmost_candidate_witness:
  "header_row_idx header_example = Some 2 \<and>
   2 < length (rows header_example) \<and>
   is_header_candidate (rows header_example ! 2) \<and>
   \<not> is_header_candidate (rows header_example ! 0) \<and>
   \<not> is_header_candidate (rows header_example ! 1) \<and>
   card (indicator_keywords_in (rows header_example ! 1)) = 1 \<and>
   card (indicator_keywords_in (rows header_example ! 3)) = 4"
proof -
  have sel: "header_row_idx header_example = Some 2"
    by code_simp
  have "indicators_found (row_str (rows header_example ! 1)) = 1"
    by code_simp
  then have one: "card (indicator_keywords_in (rows header_example ! 1)) = 1"
    by (simp only: indicators_found_card)
  have "indicators_found (row_str (rows header_example ! 3)) = 4"
    by code_simp
  then have four: "card (indicator_keywords_in (rows header_example ! 3)) = 4"
    by (simp only: indicators_found_card)
  from sel header_row_is_topmost_candidate [of header_example 2]
  have top: "2 < length (rows header_example) \<and>
      is_header_candidate (rows header_example ! 2) \<and>
      (\<forall>j<2. \<not> is_header_candidate (rows header_example ! j))"
    by blast
  then have "\<not> is_header_candidate (rows header_example ! 0)"
    and "\<not> is_header_candidate (rows header_example ! 1)"
    by simp_all
  with sel one four top show ?thesis
    by blast
qed

section \<open>Normalisation: the early return and the header-found path\<close>

lemma header_path_columns:
  "header_path df k = Inr out \<Longrightarrow> columns out = rows df ! k"
  by (auto simp: header_path_def Let_def split: if_splits list.splits)

lemma header_path_error:
  "header_path df k = Inl e \<Longrightarrow> e = AttributeError \<and> \<not> distinct (rows df ! k)"
  by (auto simp: header_path_def Let_def df_empty_def split: if_splits list.splits)

lemma header_path_returns:
  "distinct (rows df ! k) \<Longrightarrow> \<exists>out. header_path df k = Inr out"
  by (cases "header_path df k") (auto dest: header_path_error)

text \<open>
  C5, as the code has it. A sheet with zero rows is returned as it is: no rows, and the
  column names it came with.
\<close>

theorem zero_rows_returned_unchanged:
  "rows df = [] \<Longrightarrow> clean_dataframe df = Inr df"
  by (simp add: clean_dataframe_def df_empty_def)

theorem zero_rows_returned_unchanged_witness:
  "rows zero_row_example = [] \<and> clean_dataframe zero_row_example = Inr zero_row_example"
proof -
  have "rows zero_row_example = []" by (simp add: zero_row_example_def)
  with zero_rows_returned_unchanged [of zero_row_example] show ?thesis by simp
qed

text \<open>
  C5 as stated fails: the zero-row sheet with columns \<^verbatim>\<open>INVOICE\<close> and \<^verbatim>\<open>AMOUNT\<close> comes
  back with both column names, not with none.
\<close>

theorem zero_rows_keep_columns_counterexample:
  "rows zero_row_example = [] \<and>
   clean_dataframe zero_row_example =
     Inr \<lparr>columns = [Text ''INVOICE'', Text ''AMOUNT''], rows = []\<rparr> \<and>
   clean_dataframe zero_row_example \<noteq> Inr \<lparr>columns = [], rows = []\<rparr>"
  by (simp add: zero_row_example_def clean_dataframe_def df_empty_def)

text \<open>
  C4, as the code has it. On the header-found path every table that normalisation returns
  has the header row's cells themselves as column names, an empty cell included: it stays
  a null name. A table is returned whenever the header row's cells are pairwise different.
\<close>

theorem header_cells_become_column_names:
  assumes "\<not> df_empty df" and "header_row_idx df = Some k"
  shows "(\<forall>out. clean_dataframe df = Inr out \<longrightarrow> columns out = rows df ! k) \<and>
         (distinct (rows df ! k) \<longrightarrow> (\<exists>out. clean_dataframe df = Inr out))"
  using assms header_path_returns [of df k]
  by (auto simp: clean_dataframe_def dest: header_path_columns)

theorem header_cells_become_column_names_witness:
  "\<not> df_empty blank_header_example \<and> header_row_idx blank_header_example = Some 0 \<and>
   distinct (rows blank_header_example ! 0) \<and>
   map_sum id columns (clean_dataframe blank_header_example) =
     Inr [Text ''Invoice'', Null, Text ''Customer'']"
proof -
  have a: "\<not> df_empty blank_header_example" by code_simp
  have b: "header_row_idx blank_header_example = Some 0" by code_simp
  have c: "distinct (rows blank_header_example ! 0)" by code_simp
  have d: "rows blank_header_example ! 0 = [Text ''Invoice'', Null, Text ''Customer'']"
    by code_simp
  from header_cells_become_column_names [OF a b] c d
  obtain out where "clean_dataframe blank_header_example = Inr out"
     "columns out = [Text ''Invoice'', Null, Text ''Customer'']"
    by auto
  with a b c show ?thesis by simp
qed

text \<open>
  C4 as stated fails: the header row of this sheet has an empty cell at position 1, and
  the column name at position 1 of the result is null, not a placeholder string.
\<close>

theorem blank_header_cell_counterexample:
  "header_row_idx blank_header_example = Some 0 \<and>
   rows blank_header_example ! 0 ! 1 = Null \<and>
   clean_dataframe blank_header_example =
     Inr \<lparr>columns = [Text ''Invoice'', Null, Text ''Customer''],
          rows = [[Text ''1001'', Text ''x'', Text ''Acme'']]\<rparr>"
  by code_simp

text \<open>
  C3, the code at a failing input. Below the header row, the rows whose first cell is
  \<^verbatim>\<open>Report\<close> and \<^verbatim>\<open>Monthly Billing Summary\<close> stay in the result: the first column is
  uppercased and the keywords are not, so only \<^verbatim>\<open>TOTAL\<close> can match. The empty row and the
  totals row are removed.
\<close>

theorem report_row_kept:
  "clean_dataframe report_example =
     Inr \<lparr>columns = [Text ''Invoice'', Text ''Customer''],
          rows = [[Text ''Report'', Text ''x''],
                  [Text ''Monthly Billing Summary'', Null],
                  [Text ''1001'', Text ''Acme'']]\<rparr>"
  by code_simp

section \<open>Binary64 rounding and the sparsity threshold\<close>

lemma round_half_even_error: "\<bar>of_int (round_half_even q) - q\<bar> \<le> 1 / 2"
proof -
  have "of_int \<lfloor>q\<rfloor> \<le> q" "q < of_int \<lfloor>q\<rfloor> + 1"
    by linarith+
  then show ?thesis
    by (auto simp: round_half_even_def Let_def abs_le_iff)
qed

lemma round_half_even_near:
  assumes "0 \<le> f" and "f < 1 / 2"
  shows "round_half_even (of_int m + f) = m"
proof -
  have "\<lfloor>of_int m + f\<rfloor> = m"
    using assms by (intro floor_unique) auto
  then show ?thesis
    using assms by (simp add: round_half_even_def Let_def)
qed

lemma nat_le_pow2_rat: "(2::nat) ^ j \<le> m \<Longrightarrow> (2::rat) ^ j \<le> of_nat m"
proof -
  assume "(2::nat) ^ j \<le> m"
  then have "(of_nat (2 ^ j) :: rat) \<le> of_nat m"
    by (simp only: of_nat_le_iff)
  then show ?thesis by simp
qed

lemma nat_less_pow2_rat: "m < (2::nat) ^ j \<Longrightarrow> of_nat m + 1 \<le> (2::rat) ^ j"
proof -
  assume "m < (2::nat) ^ j"
  then have "Suc m \<le> 2 ^ j" by simp
  then have "(of_nat (Suc m) :: rat) \<le> of_nat (2 ^ j)"
    by (simp only: of_nat_le_iff)
  then show ?thesis by simp
qed

lemma floorlog2_bounds:
  assumes "0 < m"
  shows "0 < floorlog 2 m \<and> (2::rat) ^ (floorlog 2 m - 1) \<le> of_nat m \<and>
         of_nat m + 1 \<le> (2::rat) ^ floorlog 2 m"
proof -
  from floorlog_bounds [of m 2] assms
  have b: "2 ^ (floorlog 2 m - 1) \<le> m" "m < 2 ^ floorlog 2 m"
    by simp_all
  have "floorlog 2 m \<noteq> 0"
    using assms by (simp add: floorlog_eq_zero_iff)
  then have "0 < floorlog 2 m" by simp
  with b show ?thesis
    by (simp add: nat_le_pow2_rat nat_less_pow2_rat)
qed

lemma powi_minus_nat: "(2::rat) powi (- int j) = 1 / 2 ^ j"
  by (simp only: power_int_minus_divide power_int_of_nat)

lemma binade_bounds:
  assumes "0 < x"
  shows "2 powi binade x \<le> x \<and> x < 2 powi (binade x + 1)"
proof (cases "1 \<le> x")
  case True
  define m where "m = nat \<lfloor>x\<rfloor>"
  define k where "k = floorlog 2 m"
  have fl: "0 < \<lfloor>x\<rfloor>" using True by simp
  then have mx: "(of_nat m :: rat) = of_int \<lfloor>x\<rfloor>"
    by (simp add: m_def)
  have m0: "0 < m" using fl by (simp add: m_def)
  have m1: "of_nat m \<le> x" unfolding mx by simp
  have m2: "x < of_nat m + 1" unfolding mx by linarith
  from floorlog2_bounds [OF m0]
  have k: "0 < k" and lo: "(2::rat) ^ (k - 1) \<le> of_nat m" and hi: "of_nat m + 1 \<le> (2::rat) ^ k"
    by (simp_all add: k_def)
  have e: "binade x = int (k - 1)"
    using True k by (simp add: binade_def k_def m_def)
  have e1: "binade x + 1 = int k"
    using k by (simp add: e)
  have "(2::rat) powi binade x = 2 ^ (k - 1)"
    by (simp only: e power_int_of_nat)
  moreover have "(2::rat) powi (binade x + 1) = 2 ^ k"
    by (simp only: e1 power_int_of_nat)
  ultimately show ?thesis
    using lo hi m1 m2 by linarith
next
  case False
  define y where "y = 1 / x"
  define m where "m = nat (\<lceil>y\<rceil> - 1)"
  define k where "k = floorlog 2 m"
  have y: "1 < y" "0 < y" "x = 1 / y"
    using False assms by (simp_all add: y_def)
  have c2: "2 \<le> \<lceil>y\<rceil>"
    using y(1) by linarith
  then have my: "(of_nat m :: rat) = of_int \<lceil>y\<rceil> - 1"
    by (simp add: m_def)
  have m0: "0 < m" using c2 by (simp add: m_def)
  have m1: "of_nat m < y" unfolding my by linarith
  have m2: "y \<le> of_nat m + 1" unfolding my by simp
  from floorlog2_bounds [OF m0]
  have k: "0 < k" and lo: "(2::rat) ^ (k - 1) \<le> of_nat m" and hi: "of_nat m + 1 \<le> (2::rat) ^ k"
    by (simp_all add: k_def)
  have e: "binade x = - int k"
    using False by (simp add: binade_def k_def m_def y_def)
  have e1: "binade x + 1 = - int (k - 1)"
    using k by (simp add: e)
  have p1: "(2::rat) powi binade x = 1 / 2 ^ k"
    by (simp only: e powi_minus_nat)
  have p2: "(2::rat) powi (binade x + 1) = 1 / 2 ^ (k - 1)"
    by (simp only: e1 powi_minus_nat)
  have "y \<le> 2 ^ k" using hi m2 by linarith
  then have a: "1 / 2 ^ k \<le> 1 / y"
    using y(2) by (simp add: frac_le)
  have "2 ^ (k - 1) < y" using lo m1 by linarith
  then have b: "1 / y < 1 / 2 ^ (k - 1)"
    by (simp add: frac_less2)
  have "1 / y = x" using y(3) by simp
  with a b have "1 / 2 ^ k \<le> x" "x < 1 / 2 ^ (k - 1)" by simp_all
  then show ?thesis by (simp only: p1 p2)
qed

lemma powi_less_imp_less:
  assumes "(2::rat) powi a < 2 powi b"
  shows "a < b"
proof (rule ccontr)
  assume "\<not> a < b"
  then have "(2::rat) powi b \<le> 2 powi a"
    by (intro power_int_increasing) auto
  with assms show False by simp
qed

lemma binade_unique:
  assumes "0 < x" and "2 powi e \<le> x" and "x < 2 powi (e + 1)"
  shows "binade x = e"
proof -
  from binade_bounds [OF assms(1)]
  have b: "2 powi binade x \<le> x" "x < 2 powi (binade x + 1)" by simp_all
  have "(2::rat) powi binade x < 2 powi (e + 1)"
    using b(1) assms(3) by simp
  then have "binade x < e + 1"
    by (rule powi_less_imp_less)
  moreover have "(2::rat) powi e < 2 powi (binade x + 1)"
    using b(2) assms(2) by simp
  then have "e < binade x + 1"
    by (rule powi_less_imp_less)
  ultimately show ?thesis by simp
qed

lemma to_double_error:
  assumes "0 < x"
  shows "\<bar>to_double x - x\<bar> \<le> x / 2 ^ 53"
proof -
  define u :: rat where "u = 2 powi (binade x - 52)"
  have u: "0 < u" by (simp add: u_def zero_less_power_int)
  have "u = 2 powi binade x / 2 ^ 52"
    unfolding u_def by (simp add: power_int_diff)
  then have ux: "u \<le> x / 2 ^ 52"
    using binade_bounds [OF assms] by (simp add: divide_right_mono)
  have "to_double x - x = u * (of_int (round_half_even (x / u)) - x / u)"
    using assms u by (simp add: to_double_def u_def [symmetric] field_simps)
  then have "\<bar>to_double x - x\<bar> = u * \<bar>of_int (round_half_even (x / u)) - x / u\<bar>"
    using u by (simp add: abs_mult)
  also have "\<dots> \<le> u * (1 / 2)"
    using u round_half_even_error [of "x / u"] by (intro mult_left_mono) auto
  also have "\<dots> \<le> x / 2 ^ 53"
    using ux by simp
  finally show ?thesis .
qed


lemma to_double_scaled_int:
  assumes "0 < x" and "binade x \<le> 52" and "x * 2 ^ nat (52 - binade x) = of_int z + f"
    and "0 \<le> f" and "f < 1 / 2"
  shows "to_double x = of_int z / 2 ^ nat (52 - binade x)"
proof -
  define j where "j = nat (52 - binade x)"
  have "binade x - 52 = - int j" using assms(2) by (simp add: j_def)
  then have u: "(2::rat) powi (binade x - 52) = 1 / 2 ^ j"
    by (simp only: powi_minus_nat)
  have "x / (1 / 2 ^ j) = of_int z + f"
    using assms(3) by (simp add: j_def)
  then have "round_half_even (x / (1 / 2 ^ j)) = z"
    using round_half_even_near [OF assms(4,5), of z] by simp
  moreover have "to_double x = of_int (round_half_even (x / (1 / 2 ^ j))) * (1 / 2 ^ j)"
    using assms(1) by (simp add: to_double_def Let_def u)
  ultimately show ?thesis
    by (simp add: j_def)
qed

lemma binade_nat_le:
  assumes "0 < m" and "m < 2 ^ 53"
  shows "binade (of_nat m) \<le> 52"
proof -
  have pos: "(0::rat) < of_nat m" using assms(1) by simp
  from binade_bounds [OF pos]
  have b: "2 powi binade (of_nat m) \<le> (of_nat m :: rat)" by simp
  have "(of_nat m :: rat) < of_nat (2 ^ 53)"
    using assms(2) by (simp only: of_nat_less_iff)
  then have "(of_nat m :: rat) < 2 ^ 53" by simp
  then have "(of_nat m :: rat) < 2 powi 53" by (simp only: power_int_numeral)
  with b have "(2::rat) powi binade (of_nat m) < 2 powi 53" by (rule le_less_trans)
  then have "binade (of_nat m) < 53"
    by (rule powi_less_imp_less)
  then show ?thesis by simp
qed

lemma to_double_of_nat:
  assumes "m < 2 ^ 53"
  shows "to_double (of_nat m) = of_nat m"
proof (cases "m = 0")
  case True
  then show ?thesis by (simp add: to_double_def)
next
  case False
  then have pos: "(0::rat) < of_nat m" by simp
  have e: "binade (of_nat m) \<le> 52"
    using False assms by (intro binade_nat_le) simp_all
  define j where "j = nat (52 - binade (of_nat m))"
  have "of_nat m * 2 ^ j = (of_int (int m * 2 ^ j) :: rat) + 0"
    by simp
  from to_double_scaled_int [OF pos e this [unfolded j_def]]
  have "to_double (of_nat m) = of_int (int m * 2 ^ j) / 2 ^ j"
    by (simp add: j_def)
  then show ?thesis by simp
qed


lemma binade_nat_ge:
  assumes "0 < m"
  shows "0 \<le> binade (of_nat m)"
proof -
  have pos: "(0::rat) < of_nat m" using assms by simp
  have "(2::rat) powi 0 \<le> of_nat m" using assms by simp
  moreover from binade_bounds [OF pos]
  have "(of_nat m :: rat) < 2 powi (binade (of_nat m) + 1)" by simp
  ultimately have "(2::rat) powi 0 < 2 powi (binade (of_nat m) + 1)"
    by (rule le_less_trans)
  then have "0 < binade (of_nat m) + 1"
    by (rule powi_less_imp_less)
  then show ?thesis by simp
qed

lemma to_double_just_above_nat:
  assumes "0 < c" and "c < 2 ^ 53"
  shows "to_double (of_nat c + of_nat c / 2 ^ 54) = of_nat c"
proof -
  define x :: rat where "x = of_nat c + of_nat c / 2 ^ 54"
  define n where "n = nat (binade (of_nat c))"
  have cpos: "(0::rat) < of_nat c" using assms(1) by simp
  have e: "binade (of_nat c) = int n"
    using binade_nat_ge [OF assms(1)] by (simp add: n_def)
  have n52: "n \<le> 52"
    using binade_nat_le [OF assms] by (simp add: n_def)
  from binade_bounds [OF cpos]
  have lo: "(2::rat) powi int n \<le> of_nat c" and hi: "(of_nat c :: rat) < 2 powi (int n + 1)"
    by (simp_all add: e)
  have "int n + 1 = int (Suc n)" by simp
  then have "(2::rat) powi (int n + 1) = of_nat (2 ^ Suc n)"
    by (simp only: power_int_of_nat of_nat_power of_nat_numeral)
  with hi have chi: "c < 2 ^ Suc n"
    by (simp only: of_nat_less_iff)
  then have "(of_nat c :: rat) + 1 \<le> 2 ^ Suc n"
    by (rule nat_less_pow2_rat)
  then have hi1: "(of_nat c :: rat) + 1 \<le> 2 powi (int n + 1)"
    by (simp only: \<open>int n + 1 = int (Suc n)\<close> power_int_of_nat)
  have "(of_nat c :: rat) < of_nat (2 ^ 53)"
    using assms(2) by (simp only: of_nat_less_iff)
  then have c53: "(of_nat c :: rat) < 2 ^ 53" by simp
  have xpos: "0 < x" using cpos by (simp add: x_def add_pos_pos)
  have "of_nat c \<le> x" by (simp add: x_def)
  with lo have xlo: "2 powi int n \<le> x" by (rule order_trans)
  have "of_nat c / 2 ^ 54 < (1::rat)"
    using c53 by simp
  then have xhi: "x < 2 powi (int n + 1)"
    using hi1 by (simp add: x_def)
  have bx: "binade x = int n"
    using xpos xlo xhi by (rule binade_unique)
  define j where "j = 52 - n"
  have j: "nat (52 - binade x) = j"
    using n52 by (simp add: bx j_def)
  have "c * 2 ^ j < 2 ^ Suc n * 2 ^ j"
    using chi by simp
  also have "\<dots> = 2 ^ 53"
    using n52 by (simp add: j_def flip: power_add)
  finally have "(of_nat (c * 2 ^ j) :: rat) < of_nat (2 ^ 53)"
    by (simp only: of_nat_less_iff)
  then have cj: "(of_nat c :: rat) * 2 ^ j < 2 ^ 53" by simp
  have f: "of_nat c * 2 ^ j / 2 ^ 54 < (1::rat) / 2"
    using cj by simp
  have "x * 2 ^ nat (52 - binade x) = of_int (int c * 2 ^ j) + of_nat c * 2 ^ j / 2 ^ 54"
    unfolding j by (simp add: x_def algebra_simps)
  from to_double_scaled_int [OF xpos _ this _ f]
  have "to_double x = of_int (int c * 2 ^ j) / 2 ^ nat (52 - binade x)"
    using n52 cpos by (simp add: bx)
  then show ?thesis
    unfolding j by (simp add: x_def)
qed

lemma dropna_threshold_le_iff:
  assumes "n \<le> 2 ^ 52"
  shows "dropna_threshold n \<le> of_nat c \<longleftrightarrow> n \<le> 5 * c"
proof (cases "n = 0")
  case True
  then show ?thesis
    by (simp add: dropna_threshold_def float_mul_def to_double_def)
next
  case False
  define N :: rat where "N = of_nat n"
  define C :: rat where "C = of_nat c"
  define x :: rat where "x = N * double_0_2"
  have "(of_nat n :: rat) \<le> of_nat (2 ^ 52)"
    using assms by (simp only: of_nat_le_iff)
  then have N: "0 < N" "N \<le> 2 ^ 52"
    using False by (simp_all add: N_def)
  have "n < 2 ^ 53" using assms by simp
  then have thr: "dropna_threshold n = to_double x"
    by (simp add: dropna_threshold_def float_mul_def to_double_of_nat x_def N_def)
  have x: "x = N * (2 ^ 54 + 1) / (5 * 2 ^ 54)"
    by (simp add: x_def double_0_2_def)
  have xpos: "0 < x" using N(1) by (simp add: x)
  from to_double_error [OF xpos]
  have err: "to_double x \<le> x + x / 2 ^ 53" "x - x / 2 ^ 53 \<le> to_double x"
    by linarith+
  consider (eq) "n = 5 * c" | (lt) "n + 1 \<le> 5 * c" | (gt) "5 * c + 1 \<le> n"
    by linarith
  then show ?thesis
  proof cases
    case eq
    then have c: "0 < c" "c < 2 ^ 53" using False assms by simp_all
    have "x = of_nat c + of_nat c / 2 ^ 54"
      by (simp add: x N_def eq)
    with to_double_just_above_nat [OF c] thr show ?thesis
      by (simp add: eq)
  next
    case lt
    then have "(of_nat (n + 1) :: rat) \<le> of_nat (5 * c)"
      by (simp only: of_nat_le_iff)
    then have NC: "N + 1 \<le> 5 * C" by (simp add: N_def C_def)
    note err(1)
    also have "x + x / 2 ^ 53 \<le> (N + 1) / 5"
      using N by (simp add: x field_simps)
    also have "(N + 1) / 5 \<le> C"
      using NC by simp
    finally have "to_double x \<le> C" .
    with lt thr show ?thesis by (simp add: C_def)
  next
    case gt
    then have "(of_nat (5 * c + 1) :: rat) \<le> of_nat n"
      by (simp only: of_nat_le_iff)
    then have NC: "5 * C + 1 \<le> N" by (simp add: N_def C_def)
    have "C \<le> (N - 1) / 5"
      using NC by simp
    also have "(N - 1) / 5 < x - x / 2 ^ 53"
      using N by (simp add: x field_simps)
    also note err(2)
    finally have "C < to_double x" .
    with gt thr show ?thesis by (simp add: C_def)
  qed
qed


lemma dropna_thresh_20_percent:
  assumes "ncols \<le> 2 ^ 52"
  shows "dropna_thresh (dropna_threshold ncols) rws =
         filter (\<lambda>r. \<not> (of_nat (non_null_count r) < (20 / 100 :: rat) * of_nat ncols)) rws"
proof -
  have "dropna_threshold ncols \<le> of_nat c \<longleftrightarrow>
        \<not> (of_nat c < (20 / 100 :: rat) * of_nat ncols)" for c
  proof -
    have "\<not> (of_nat c < (20 / 100 :: rat) * of_nat ncols) \<longleftrightarrow>
          (of_nat ncols :: rat) \<le> of_nat (5 * c)"
      by (simp add: not_less mult.commute)
    also have "\<dots> \<longleftrightarrow> ncols \<le> 5 * c"
      by (simp only: of_nat_le_iff)
    finally show ?thesis
      using dropna_threshold_le_iff [OF assms, of c] by simp
  qed
  then show ?thesis
    by (simp add: dropna_thresh_def)
qed

text \<open>
  C7. On the no-header path, after the metadata-keyword rounds, a row is dropped exactly
  when its number of non-null cells is strictly below 20 percent of the number of columns:
  a row with exactly 20 percent is kept. The threshold is the binary64 product of the
  column count and \<^verbatim>\<open>0.2\<close>; for up to \<open>2 ^ 52\<close> columns its rounding never moves it
  across a whole number, so the comparison agrees with the exact one.
\<close>

theorem sparse_rows_dropped_below_20_percent:
  assumes "\<not> df_empty df" and "header_row_idx df = None"
    and "length (columns df) \<le> 2 ^ 52"
  shows "\<exists>out. clean_dataframe df = Inr out \<and> columns out = columns df \<and>
           rows out =
             filter (\<lambda>r. \<not> (of_nat (non_null_count r) <
                              (20 / 100 :: rat) * of_nat (length (columns df))))
               (remove_metadata_rows (rows df))"
  using assms
  by (simp add: clean_dataframe_def general_path_def Let_def dropna_thresh_20_percent)

theorem sparse_rows_dropped_below_20_percent_witness:
  "\<not> df_empty sparse_example \<and> header_row_idx sparse_example = None \<and>
   length (columns sparse_example) \<le> 2 ^ 52 \<and>
   map_sum id rows (clean_dataframe sparse_example) =
     Inr [[Text ''a'', Text ''b'', Null, Null, Null, Null, Null, Null, Null, Null],
          [Null, Null, Null, Null, Null, Null, Null, Null, Text ''p'', Text ''q'']]"
proof -
  have a: "\<not> df_empty sparse_example" by code_simp
  have b: "header_row_idx sparse_example = None" by code_simp
  have c: "length (columns sparse_example) \<le> 2 ^ 52"
    by (simp add: sparse_example_def)
  have d: "filter (\<lambda>r. \<not> (of_nat (non_null_count r) <
                              (20 / 100 :: rat) * of_nat (length (columns sparse_example))))
               (remove_metadata_rows (rows sparse_example)) =
     [[Text ''a'', Text ''b'', Null, Null, Null, Null, Null, Null, Null, Null],
      [Null, Null, Null, Null, Null, Null, Null, Null, Text ''p'', Text ''q'']]"
    by code_simp
  from sparse_rows_dropped_below_20_percent [OF a b c] d
  obtain out where "clean_dataframe sparse_example = Inr out"
    "rows out = [[Text ''a'', Text ''b'', Null, Null, Null, Null, Null, Null, Null, Null],
      [Null, Null, Null, Null, Null, Null, Null, Null, Text ''p'', Text ''q'']]"
    by auto
  with a b c show ?thesis by simp
qed


section \<open>The batch run: the loop and the merge\<close>

lemma read_loop_survivors:
  "read_loop files (dfs, processed) =
     (dfs @ map tagged (filter survives files), processed @ filter survives files)"
proof (induction files arbitrary: dfs processed)
  case Nil
  then show ?case by simp
next
  case (Cons f files)
  show ?case
  proof (cases "read_excel f")
    case (Inl e)
    then show ?thesis by (simp add: Cons.IH survives_def)
  next
    case (Inr df)
    then show ?thesis by (simp add: Cons.IH survives_def tagged_def Let_def)
  qed
qed

lemma compile_survivors:
  "compile_xlsx_to_csv p files =
     (if filter survives files = []
      then Inr \<lparr>returned = None, csv = None, done_folder = [], ready_folder = map fname files\<rparr>
      else case pd_concat (map tagged (filter survives files)) of
             Inl e \<Rightarrow> Inl e
           | Inr combined \<Rightarrow>
               Inr \<lparr>returned = Some p, csv = Some combined,
                    done_folder = map fname (filter movable (filter survives files)),
                    ready_folder =
                      map fname (filter (\<lambda>f. f \<notin> set (filter movable (filter survives files))) files)\<rparr>)"
  by (cases "files = []")
     (simp_all add: compile_xlsx_to_csv_def read_loop_survivors Let_def
        split: sum.splits)

lemma remdups_append_filter:
  "remdups (xs @ ys) = remdups (filter (\<lambda>x. x \<notin> set ys) xs) @ remdups ys"
  by (induction xs) auto

lemma first_seen_append:
  "first_seen (xs @ ys) = first_seen xs @ first_seen (filter (\<lambda>y. y \<notin> set xs) ys)"
  by (simp add: first_seen_def remdups_append_filter [of "rev ys"] rev_filter)

lemma first_seen_distinct: "distinct xs \<Longrightarrow> first_seen xs = xs"
  by (simp add: first_seen_def distinct_remdups_id)

lemma distinct_index_union:
  "distinct a \<Longrightarrow> distinct b \<Longrightarrow> distinct (index_union a b)"
  by (auto simp: index_union_def)

lemma foldl_index_union:
  "distinct acc \<Longrightarrow> \<forall>cs \<in> set css. distinct cs \<Longrightarrow>
   foldl index_union acc css = first_seen (acc @ concat css)"
proof (induction css arbitrary: acc)
  case Nil
  then show ?case by (simp add: first_seen_distinct)
next
  case (Cons cs css)
  have d: "distinct (index_union acc cs)"
    using Cons.prems by (simp add: distinct_index_union)
  have "foldl index_union acc (cs # css) = first_seen (index_union acc cs @ concat css)"
    using Cons.IH [OF d] Cons.prems(2) by simp
  also have "\<dots> = first_seen (acc @ cs @ concat css)"
    by (simp add: index_union_def first_seen_append [of acc] )
  finally show ?case by simp
qed


lemma distinct_set_column:
  "distinct (columns df) \<Longrightarrow> distinct (columns (set_column label v df))"
  by (simp add: set_column_def)

lemma length_rows_set_column:
  "length (rows (set_column label v df)) = length (rows df)"
  by (simp add: set_column_def)

lemma tagged_sheet: "tagged f = set_column source_file (Text (fname f)) (sheet f)"
  if "survives f"
  using that by (simp add: tagged_def sheet_def survives_def split: sum.splits)

lemma survives_iff: "survives f \<longleftrightarrow> (\<exists>df. read_excel f = Inr df \<and> \<not> df_empty df)"
  by (simp add: survives_def split: sum.splits)

lemma filter_survives_removeAll:
  "\<not> survives f \<Longrightarrow> filter survives (removeAll f files) = filter survives files"
  by (induction files) auto

lemma pd_concat_Inr:
  assumes "pd_concat dfs = Inr out"
  shows "dfs \<noteq> [] \<and> (\<forall>df \<in> set dfs. distinct (columns df)) \<and>
         columns out = first_seen (concat (map columns dfs)) \<and>
         rows out = concat (map (\<lambda>df. map (reindex_row (columns out) (columns df)) (rows df)) dfs)"
proof -
  from assms have ne: "dfs \<noteq> []" and d: "\<forall>df \<in> set dfs. distinct (columns df)"
    by (auto simp: pd_concat_def list_ex_iff split: if_splits)
  from assms ne d have out: "out = \<lparr>columns = foldl index_union [] (map columns dfs),
      rows = concat (map (\<lambda>df. map (reindex_row (foldl index_union [] (map columns dfs))
                 (columns df)) (rows df)) dfs)\<rparr>"
    by (auto simp: pd_concat_def list_ex_iff Let_def split: if_splits)
  have "foldl index_union [] (map columns dfs) = first_seen ([] @ concat (map columns dfs))"
    using d by (intro foldl_index_union) auto
  with ne d out show ?thesis by simp
qed

lemma pd_concat_returns:
  assumes "dfs \<noteq> []" and "\<forall>df \<in> set dfs. distinct (columns df)"
  shows "\<exists>out. pd_concat dfs = Inr out"
  using assms by (simp add: pd_concat_def list_ex_iff Let_def)

lemma reindex_row_absent:
  assumes "i < length new_cols" and "new_cols ! i \<notin> set cols"
  shows "reindex_row new_cols cols r ! i = Null"
proof -
  have "new_cols ! i \<notin> fst ` set (zip cols r)"
    using assms(2) by (auto dest: set_zip_leftD)
  then have "map_of (zip cols r) (new_cols ! i) = None"
    by (simp add: map_of_eq_None_iff)
  then show ?thesis
    using assms(1) by (simp add: reindex_row_def)
qed

lemma same_name_same_file:
  assumes "distinct (map fname files)" and "f \<in> set files" and "g \<in> set files"
    and "fname g = fname f"
  shows "g = f"
  using assms by (meson distinct_map inj_on_def)

lemma not_survivor_not_moved:
  assumes "distinct (map fname files)" and "f \<in> set files" and "\<not> survives f"
  shows "fname f \<notin> set (map fname (filter movable (filter survives files)))"
proof
  assume "fname f \<in> set (map fname (filter movable (filter survives files)))"
  then obtain g where g: "g \<in> set files" "survives g" "fname g = fname f"
    by auto
  with same_name_same_file [OF assms(1,2) g(1) g(3)] assms(3) show False
    by simp
qed

lemma not_survivor_stays:
  assumes "f \<in> set files" and "\<not> survives f"
  shows "fname f \<in> set (map fname
           (filter (\<lambda>f. f \<notin> set (filter movable (filter survives files))) files))"
  using assms by auto

lemma compile_Inr:
  assumes "compile_xlsx_to_csv p files = Inr r"
  shows "(filter survives files = [] \<and>
          r = \<lparr>returned = None, csv = None, done_folder = [], ready_folder = map fname files\<rparr>) \<or>
         (filter survives files \<noteq> [] \<and>
          (\<exists>out. pd_concat (map tagged (filter survives files)) = Inr out \<and>
             r = \<lparr>returned = Some p, csv = Some out,
                  done_folder = map fname (filter movable (filter survives files)),
                  ready_folder = map fname
                    (filter (\<lambda>f. f \<notin> set (filter movable (filter survives files))) files)\<rparr>))"
  using assms unfolding compile_survivors
  by (auto split: if_splits sum.splits)


section \<open>The batch run: claims\<close>

text \<open>
  C8. When no table survives (every file fails to read or gives an empty frame) the run
  returns \<^verbatim>\<open>None\<close> as a value, writes no output and moves no file: every name is still
  in the ready folder.
\<close>

theorem no_survivor_is_a_no_op:
  assumes "\<forall>f \<in> set files. case read_excel f of Inl e \<Rightarrow> True | Inr df \<Rightarrow> df_empty df"
  shows "compile_xlsx_to_csv p files =
           Inr \<lparr>returned = None, csv = None, done_folder = [],
                ready_folder = map fname files\<rparr>"
proof -
  have "filter survives files = []"
    using assms by (auto simp: filter_empty_conv survives_def split: sum.splits)
  then show ?thesis
    by (simp add: compile_survivors)
qed

theorem no_survivor_is_a_no_op_witness:
  "read_excel corrupt_file = Inl UnreadableFile \<and>
   read_excel blank_file = Inr \<lparr>columns = [Text ''INVOICE''], rows = []\<rparr> \<and>
   df_empty \<lparr>columns = [Text ''INVOICE''], rows = []\<rparr> \<and>
   compile_xlsx_to_csv ''CSV/combined.csv'' [corrupt_file, blank_file] =
     Inr \<lparr>returned = None, csv = None, done_folder = [],
          ready_folder = [''corrupt.xlsx'', ''blank.xlsx'']\<rparr>"
proof -
  have h: "\<forall>f \<in> set [corrupt_file, blank_file].
      case read_excel f of Inl e \<Rightarrow> True | Inr df \<Rightarrow> df_empty df"
    by (simp add: corrupt_file_def blank_file_def df_empty_def)
  from no_survivor_is_a_no_op [OF h, of "''CSV/combined.csv''"] show ?thesis
    by (simp add: corrupt_file_def blank_file_def df_empty_def)
qed

text \<open>
  C9, as the code has it. A file whose read raises is skipped. The run returns, writes and
  moves exactly what it does without that file; the file is not moved to the done folder
  and stays in the ready folder. Whatever table is written has the first-seen union of the
  surviving files' columns and exactly their rows, in their order. Output is written when
  at least one file was read and is not empty (and no sheet repeats a column name); when
  no file survives, the run returns \<^verbatim>\<open>None\<close> and writes nothing.
\<close>

theorem unreadable_file_is_skipped:
  assumes "f \<in> set files" and "read_excel f = Inl e" and "distinct (map fname files)"
  shows "map_sum id (\<lambda>r. (returned r, csv r, done_folder r)) (compile_xlsx_to_csv p files) =
         map_sum id (\<lambda>r. (returned r, csv r, done_folder r))
           (compile_xlsx_to_csv p (removeAll f files)) \<and>
         (\<forall>r. compile_xlsx_to_csv p files = Inr r \<longrightarrow>
            fname f \<notin> set (done_folder r) \<and> fname f \<in> set (ready_folder r) \<and>
            (\<forall>out. csv r = Some out \<longrightarrow>
               columns out =
                 first_seen (concat (map (\<lambda>g. columns (tagged g)) (filter survives files))) \<and>
               rows out =
                 concat (map (\<lambda>g. map (reindex_row (columns out) (columns (tagged g)))
                                    (rows (tagged g)))
                           (filter survives files)))) \<and>
         (filter survives files \<noteq> [] \<and> (\<forall>g \<in> set files. distinct (columns (sheet g))) \<longrightarrow>
            (\<exists>r out. compile_xlsx_to_csv p files = Inr r \<and> returned r = Some p \<and>
               csv r = Some out)) \<and>
         (filter survives files = [] \<longrightarrow>
            compile_xlsx_to_csv p files =
              Inr \<lparr>returned = None, csv = None, done_folder = [],
                   ready_folder = map fname files\<rparr>)"
proof -
  have dead: "\<not> survives f"
    using assms(2) by (simp add: survives_def)
  have same: "filter survives (removeAll f files) = filter survives files"
    using dead by (rule filter_survives_removeAll)
  have one: "map_sum id (\<lambda>r. (returned r, csv r, done_folder r)) (compile_xlsx_to_csv p files) =
      map_sum id (\<lambda>r. (returned r, csv r, done_folder r))
        (compile_xlsx_to_csv p (removeAll f files))"
    by (simp add: compile_survivors same split: sum.splits)
  have two: "fname f \<notin> set (done_folder r) \<and> fname f \<in> set (ready_folder r) \<and>
      (\<forall>out. csv r = Some out \<longrightarrow>
         columns out =
           first_seen (concat (map (\<lambda>g. columns (tagged g)) (filter survives files))) \<and>
         rows out =
           concat (map (\<lambda>g. map (reindex_row (columns out) (columns (tagged g)))
                              (rows (tagged g)))
                     (filter survives files)))"
    if r: "compile_xlsx_to_csv p files = Inr r" for r
  proof -
    from compile_Inr [OF r] show ?thesis
    proof (elim disjE conjE exE)
      assume "r = \<lparr>returned = None, csv = None, done_folder = [],
                   ready_folder = map fname files\<rparr>"
      then show ?thesis using assms(1) by simp
    next
      fix out
      assume c: "pd_concat (map tagged (filter survives files)) = Inr out"
        and "r = \<lparr>returned = Some p, csv = Some out,
                  done_folder = map fname (filter movable (filter survives files)),
                  ready_folder = map fname
                    (filter (\<lambda>f. f \<notin> set (filter movable (filter survives files))) files)\<rparr>"
      then show ?thesis
        using not_survivor_not_moved [OF assms(3,1) dead] not_survivor_stays [OF assms(1) dead]
          pd_concat_Inr [OF c]
        by (simp add: comp_def)
    qed
  qed
  have three: "\<exists>r out. compile_xlsx_to_csv p files = Inr r \<and> returned r = Some p \<and>
      csv r = Some out"
    if ne: "filter survives files \<noteq> []" and d: "\<forall>g \<in> set files. distinct (columns (sheet g))"
  proof -
    have "\<forall>df \<in> set (map tagged (filter survives files)). distinct (columns df)"
      using d by (auto simp: tagged_sheet distinct_set_column)
    with ne pd_concat_returns [of "map tagged (filter survives files)"]
    obtain out where "pd_concat (map tagged (filter survives files)) = Inr out"
      by auto
    with ne show ?thesis
      by (simp add: compile_survivors)
  qed
  have four: "compile_xlsx_to_csv p files =
      Inr \<lparr>returned = None, csv = None, done_folder = [], ready_folder = map fname files\<rparr>"
    if "filter survives files = []"
    using that by (simp add: compile_survivors)
  from one two three four show ?thesis by blast
qed

text \<open>
  C9 as stated fails: the run over one unreadable file alone skips it and produces no
  output; it returns \<^verbatim>\<open>None\<close>.
\<close>

theorem only_unreadable_file_no_output_counterexample:
  "read_excel corrupt_file = Inl UnreadableFile \<and>
   compile_xlsx_to_csv ''CSV/combined.csv'' [corrupt_file] =
     Inr \<lparr>returned = None, csv = None, done_folder = [],
          ready_folder = [''corrupt.xlsx'']\<rparr>"
  by code_simp

theorem unreadable_file_is_skipped_witness:
  "corrupt_file \<in> set [corrupt_file, blank_file, sheet2_file] \<and>
   read_excel corrupt_file = Inl UnreadableFile \<and>
   distinct (map fname [corrupt_file, blank_file, sheet2_file]) \<and>
   compile_xlsx_to_csv ''CSV/combined.csv'' [corrupt_file, blank_file, sheet2_file] =
     Inr \<lparr>returned = Some ''CSV/combined.csv'', csv = Some sheet2_merged,
          done_folder = [''Sheet2.xlsx''],
          ready_folder = [''corrupt.xlsx'', ''blank.xlsx'']\<rparr> \<and>
   map_sum id (\<lambda>r. (returned r, csv r, done_folder r))
     (compile_xlsx_to_csv ''CSV/combined.csv'' (removeAll corrupt_file [corrupt_file, blank_file, sheet2_file])) =
     Inr (Some ''CSV/combined.csv'', Some sheet2_merged, [''Sheet2.xlsx''])"
proof -
  have a: "corrupt_file \<in> set [corrupt_file, blank_file, sheet2_file]" by simp
  have b: "read_excel corrupt_file = Inl UnreadableFile" by (simp add: corrupt_file_def)
  have c: "distinct (map fname [corrupt_file, blank_file, sheet2_file])"
    by (simp add: corrupt_file_def blank_file_def sheet2_file_def)
  have d: "compile_xlsx_to_csv ''CSV/combined.csv'' [corrupt_file, blank_file, sheet2_file] =
     Inr \<lparr>returned = Some ''CSV/combined.csv'', csv = Some sheet2_merged,
          done_folder = [''Sheet2.xlsx''],
          ready_folder = [''corrupt.xlsx'', ''blank.xlsx'']\<rparr>"
    by code_simp
  from unreadable_file_is_skipped [OF a b c, of "''CSV/combined.csv''"] d
  have "map_sum id (\<lambda>r. (returned r, csv r, done_folder r))
     (compile_xlsx_to_csv ''CSV/combined.csv'' (removeAll corrupt_file [corrupt_file, blank_file, sheet2_file])) =
     Inr (Some ''CSV/combined.csv'', Some sheet2_merged, [''Sheet2.xlsx''])"
    by simp
  with a b c d show ?thesis by blast
qed

text \<open>
  C10. In a run that writes output, a file that was read but gave an empty frame is not
  recorded in \<^verbatim>\<open>processed_files\<close>, is not moved to the done folder, stays in the ready
  folder, and adds nothing: the run without it writes the same table.
\<close>

theorem empty_sheet_stays_in_ready_folder:
  assumes "f \<in> set files" and "read_excel f = Inr df" and "df_empty df"
    and "distinct (map fname files)"
    and "compile_xlsx_to_csv p files = Inr r" and "csv r = Some out"
  shows "f \<notin> set (snd (read_loop files ([], []))) \<and>
         fname f \<notin> set (done_folder r) \<and> fname f \<in> set (ready_folder r) \<and>
         map_sum id csv (compile_xlsx_to_csv p (removeAll f files)) = Inr (Some out)"
proof -
  have dead: "\<not> survives f"
    using assms(2,3) by (simp add: survives_def)
  have same: "filter survives (removeAll f files) = filter survives files"
    using dead by (rule filter_survives_removeAll)
  have one: "f \<notin> set (snd (read_loop files ([], [])))"
    using dead by (simp add: read_loop_survivors)
  from compile_Inr [OF assms(5)] assms(6)
  have ne: "filter survives files \<noteq> []"
    and c: "pd_concat (map tagged (filter survives files)) = Inr out"
    and r: "r = \<lparr>returned = Some p, csv = Some out,
                  done_folder = map fname (filter movable (filter survives files)),
                  ready_folder = map fname
                    (filter (\<lambda>f. f \<notin> set (filter movable (filter survives files))) files)\<rparr>"
    by auto
  have two: "fname f \<notin> set (done_folder r) \<and> fname f \<in> set (ready_folder r)"
    using not_survivor_not_moved [OF assms(4,1) dead] not_survivor_stays [OF assms(1) dead]
    unfolding r by simp
  have three: "map_sum id csv (compile_xlsx_to_csv p (removeAll f files)) = Inr (Some out)"
    using ne c by (simp add: compile_survivors same)
  from one two three show ?thesis by blast
qed

theorem empty_sheet_stays_in_ready_folder_witness:
  "blank_file \<in> set [corrupt_file, blank_file, sheet2_file] \<and>
   read_excel blank_file = Inr \<lparr>columns = [Text ''INVOICE''], rows = []\<rparr> \<and>
   df_empty \<lparr>columns = [Text ''INVOICE''], rows = []\<rparr> \<and>
   distinct (map fname [corrupt_file, blank_file, sheet2_file]) \<and>
   compile_xlsx_to_csv ''CSV/combined.csv'' [corrupt_file, blank_file, sheet2_file] =
     Inr \<lparr>returned = Some ''CSV/combined.csv'', csv = Some sheet2_merged,
          done_folder = [''Sheet2.xlsx''],
          ready_folder = [''corrupt.xlsx'', ''blank.xlsx'']\<rparr> \<and>
   blank_file \<notin> set (snd (read_loop [corrupt_file, blank_file, sheet2_file] ([], []))) \<and>
   map_sum id csv (compile_xlsx_to_csv ''CSV/combined.csv''
      (removeAll blank_file [corrupt_file, blank_file, sheet2_file])) = Inr (Some sheet2_merged)"
proof -
  have a: "blank_file \<in> set [corrupt_file, blank_file, sheet2_file]" by simp
  have b: "read_excel blank_file = Inr \<lparr>columns = [Text ''INVOICE''], rows = []\<rparr>"
    by (simp add: blank_file_def)
  have b': "df_empty \<lparr>columns = [Text ''INVOICE''], rows = []\<rparr>"
    by (simp add: df_empty_def)
  have c: "distinct (map fname [corrupt_file, blank_file, sheet2_file])"
    by (simp add: corrupt_file_def blank_file_def sheet2_file_def)
  have d: "compile_xlsx_to_csv ''CSV/combined.csv'' [corrupt_file, blank_file, sheet2_file] =
     Inr \<lparr>returned = Some ''CSV/combined.csv'', csv = Some sheet2_merged,
          done_folder = [''Sheet2.xlsx''],
          ready_folder = [''corrupt.xlsx'', ''blank.xlsx'']\<rparr>"
    by code_simp
  from empty_sheet_stays_in_ready_folder [OF a b b' c d] a b b' c d show ?thesis
    by simp
qed


text \<open>
  C1, as the code has it. The call of \<^verbatim>\<open>clean_dataframe\<close> is disabled (lines 150 to 154):
  what is merged is each surviving sheet as it was read, with only its \<^verbatim>\<open>source_file\<close>
  column set, so the output has one row for every row of every surviving sheet.
\<close>

theorem sheets_are_merged_as_read:
  assumes "compile_xlsx_to_csv p files = Inr r" and "csv r = Some out"
  shows "pd_concat (map tagged (filter survives files)) = Inr out \<and>
         (\<forall>g \<in> set (filter survives files).
            tagged g = set_column source_file (Text (fname g)) (sheet g)) \<and>
         length (rows out) =
           sum_list (map (\<lambda>g. length (rows (sheet g))) (filter survives files))"
proof -
  from compile_Inr [OF assms(1)] assms(2)
  have c: "pd_concat (map tagged (filter survives files)) = Inr out"
    by auto
  have t: "\<forall>g \<in> set (filter survives files).
      tagged g = set_column source_file (Text (fname g)) (sheet g)"
    by (simp add: tagged_sheet)
  from pd_concat_Inr [OF c]
  have "length (rows out) =
      sum_list (map (\<lambda>g. length (rows (tagged g))) (filter survives files))"
    by (simp add: length_concat comp_def)
  also have "\<dots> = sum_list (map (\<lambda>g. length (rows (sheet g))) (filter survives files))"
    by (rule arg_cong [where f = sum_list], rule map_cong)
       (simp_all add: tagged_sheet length_rows_set_column)
  finally show ?thesis using c t by blast
qed

text \<open>
  C1 as stated fails on the two-sheet scenario: the title row supplies the column names of
  the first sheet, its \<^verbatim>\<open>INVOICE, CUSTOMER, AMOUNT\<close> row is kept as data, and the output
  has seven columns and three rows.
\<close>

theorem billing_sheets_not_normalised_counterexample:
  "compile_xlsx_to_csv ''CSV/combined.csv'' billing_files =
     Inr \<lparr>returned = Some ''CSV/combined.csv'',
          csv = Some
            \<lparr>columns = [Text ''Monthly Billing Summary'', Text ''Unnamed: 1'',
                        Text ''Unnamed: 2'', Text ''source_file'', Text ''INVOICE'',
                        Text ''CUSTOMER'', Text ''FEE''],
             rows = [[Text ''INVOICE'', Text ''CUSTOMER'', Text ''AMOUNT'',
                      Text ''Sheet1.xlsx'', Null, Null, Null],
                     [Text ''1001'', Text ''Acme'', Text ''50.00'',
                      Text ''Sheet1.xlsx'', Null, Null, Null],
                     [Null, Null, Null, Text ''Sheet2.xlsx'',
                      Text ''1002'', Text ''Globex'', Text ''10.00'']]\<rparr>,
          done_folder = [''Sheet1.xlsx'', ''Sheet2.xlsx''], ready_folder = []\<rparr> \<and>
   map_sum id csv (compile_xlsx_to_csv ''CSV/combined.csv'' billing_files) \<noteq>
     Inr (Some billing_claimed)"
  by code_simp

theorem sheets_are_merged_as_read_witness:
  "compile_xlsx_to_csv ''CSV/combined.csv'' billing_files =
     Inr \<lparr>returned = Some ''CSV/combined.csv'', csv = Some billing_merged,
          done_folder = [''Sheet1.xlsx'', ''Sheet2.xlsx''], ready_folder = []\<rparr> \<and>
   pd_concat (map tagged (filter survives billing_files)) = Inr billing_merged \<and>
   length (rows billing_merged) = 3 \<and>
   sum_list (map (\<lambda>g. length (rows (sheet g))) (filter survives billing_files)) = 3"
proof -
  have a: "compile_xlsx_to_csv ''CSV/combined.csv'' billing_files =
     Inr \<lparr>returned = Some ''CSV/combined.csv'', csv = Some billing_merged,
          done_folder = [''Sheet1.xlsx'', ''Sheet2.xlsx''], ready_folder = []\<rparr>"
    by code_simp
  have b: "length (rows billing_merged) = 3"
    by (simp add: billing_merged_def)
  from sheets_are_merged_as_read [OF a] a b show ?thesis
    by simp
qed

text \<open>
  C2, as the code has it. With at least one surviving table (and no sheet repeating a
  column name) the run writes a table whose columns are the first-seen union of the
  surviving tables' columns, each table taken with its \<^verbatim>\<open>source_file\<close> column. So
  \<^verbatim>\<open>source_file\<close> comes directly after the first table's own columns, before any column
  that a later table adds. Every merged row is its source row laid out on the union, with
  null in each union column that its source table lacks.
\<close>

theorem merged_columns_first_seen_union:
  assumes "filter survives files \<noteq> []"
    and "\<forall>g \<in> set files. distinct (columns (sheet g))"
  shows "\<exists>r out. compile_xlsx_to_csv p files = Inr r \<and> csv r = Some out \<and>
     columns out =
       first_seen (concat (map (\<lambda>g. columns (tagged g)) (filter survives files))) \<and>
     (source_file \<notin> set (columns (sheet (hd (filter survives files)))) \<longrightarrow>
        prefix (columns (sheet (hd (filter survives files))) @ [source_file]) (columns out)) \<and>
     rows out =
       concat (map (\<lambda>g. map (reindex_row (columns out) (columns (tagged g))) (rows (tagged g)))
                 (filter survives files)) \<and>
     (\<forall>cols row i. i < length (columns out) \<longrightarrow> columns out ! i \<notin> set cols \<longrightarrow>
        reindex_row (columns out) cols row ! i = Null)"
proof -
  have d: "\<forall>df \<in> set (map tagged (filter survives files)). distinct (columns df)"
    using assms(2) by (auto simp: tagged_sheet distinct_set_column)
  with assms(1) pd_concat_returns [of "map tagged (filter survives files)"]
  obtain out where c: "pd_concat (map tagged (filter survives files)) = Inr out"
    by auto
  define r where "r = \<lparr>returned = Some p, csv = Some out,
      done_folder = map fname (filter movable (filter survives files)),
      ready_folder = map fname
        (filter (\<lambda>f. f \<notin> set (filter movable (filter survives files))) files)\<rparr>"
  have run: "compile_xlsx_to_csv p files = Inr r" "csv r = Some out"
    using assms(1) c by (simp_all add: compile_survivors r_def)
  from pd_concat_Inr [OF c]
  have cols: "columns out =
      first_seen (concat (map (\<lambda>g. columns (tagged g)) (filter survives files)))"
    and rws: "rows out =
      concat (map (\<lambda>g. map (reindex_row (columns out) (columns (tagged g))) (rows (tagged g)))
                (filter survives files))"
    by (simp_all add: comp_def)
  have pre: "prefix (columns (sheet (hd (filter survives files))) @ [source_file]) (columns out)"
    if nsf: "source_file \<notin> set (columns (sheet (hd (filter survives files))))"
  proof -
    obtain g gs where gs: "filter survives files = g # gs"
      using assms(1) by (cases "filter survives files") auto
    then have "g \<in> set (filter survives files)" by simp
    then have g: "survives g" "g \<in> set files" by simp_all
    have tg: "columns (tagged g) = columns (sheet g) @ [source_file]"
      using nsf gs g(1) by (simp add: tagged_sheet set_column_def)
    have "distinct (columns (tagged g))"
      using d gs by simp
    then have "columns out = columns (tagged g) @
        first_seen (filter (\<lambda>y. y \<notin> set (columns (tagged g)))
          (concat (map (\<lambda>g. columns (tagged g)) gs)))"
      unfolding cols gs by (simp add: first_seen_append first_seen_distinct)
    then show ?thesis
      unfolding gs by (simp add: tg)
  qed
  have nul: "\<forall>cols row i. i < length (columns out) \<longrightarrow> columns out ! i \<notin> set cols \<longrightarrow>
        reindex_row (columns out) cols row ! i = Null"
    by (simp add: reindex_row_absent)
  from run cols pre rws nul show ?thesis by blast
qed

text \<open>
  C2 as stated fails: tables with columns \<^verbatim>\<open>A, B\<close> and \<^verbatim>\<open>B, C\<close> merge into
  \<^verbatim>\<open>A, B, source_file, C\<close>; \<^verbatim>\<open>source_file\<close> is not last.
\<close>

theorem source_file_not_last_counterexample:
  "compile_xlsx_to_csv ''CSV/combined.csv'' ab_bc_files =
     Inr \<lparr>returned = Some ''CSV/combined.csv'',
          csv = Some
            \<lparr>columns = [Text ''A'', Text ''B'', Text ''source_file'', Text ''C''],
             rows = [[Text ''a1'', Text ''b1'', Text ''ab.xlsx'', Null],
                     [Null, Text ''b2'', Text ''bc.xlsx'', Text ''c2'']]\<rparr>,
          done_folder = [''ab.xlsx'', ''bc.xlsx''], ready_folder = []\<rparr>"
  by code_simp

theorem merged_columns_first_seen_union_witness:
  "filter survives ab_bc_files \<noteq> [] \<and>
   distinct (columns (sheet (ab_bc_files ! 0))) \<and>
   distinct (columns (sheet (ab_bc_files ! 1))) \<and>
   source_file \<notin> set (columns (sheet (hd (filter survives ab_bc_files)))) \<and>
   map_sum id (map_option columns \<circ> csv) (compile_xlsx_to_csv ''CSV/combined.csv'' ab_bc_files) =
     Inr (Some (first_seen (concat (map (\<lambda>g. columns (tagged g)) (filter survives ab_bc_files))))) \<and>
   first_seen (concat (map (\<lambda>g. columns (tagged g)) (filter survives ab_bc_files))) =
     [Text ''A'', Text ''B'', Text ''source_file'', Text ''C'']"
proof -
  have a: "filter survives ab_bc_files \<noteq> []" by code_simp
  have b: "\<forall>g \<in> set ab_bc_files. distinct (columns (sheet g))"
    by (simp add: ab_bc_files_def sheet_def)
  have b0: "distinct (columns (sheet (ab_bc_files ! 0)))"
    and b1: "distinct (columns (sheet (ab_bc_files ! 1)))"
    by (simp_all add: ab_bc_files_def sheet_def)
  have c: "source_file \<notin> set (columns (sheet (hd (filter survives ab_bc_files))))"
    by code_simp
  have e: "first_seen (concat (map (\<lambda>g. columns (tagged g)) (filter survives ab_bc_files))) =
     [Text ''A'', Text ''B'', Text ''source_file'', Text ''C'']"
    by code_simp
  from merged_columns_first_seen_union [OF a b, of "''CSV/combined.csv''"]
  obtain r out where "compile_xlsx_to_csv ''CSV/combined.csv'' ab_bc_files = Inr r"
    "csv r = Some out"
    "columns out =
       first_seen (concat (map (\<lambda>g. columns (tagged g)) (filter survives ab_bc_files)))"
    by blast
  with a b0 b1 c e show ?thesis by simp
qed


end
